theory Spec2Isabelle
  imports Complex_Main "HOL-Library.Word"
begin

unbundle bit_operations_syntax

section \<open>Shared data structures (pkg/types)\<close>

text \<open>
  Go's \<open>[]byte\<close> is a list of 8-bit words (a nil slice and an empty slice both have
  length 0 and are the empty list), \<open>int64\<close> and \<open>int\<close> are 64-bit words read as
  two's complement, a Go \<open>string\<close> is a \<open>string\<close>, and a pointer that may be nil is
  an \<open>option\<close>.
\<close>

type_synonym byte = "8 word"
type_synonym bytes = "byte list"
type_synonym int64 = "64 word"

subsection \<open>float64\<close>

text \<open>
  The \<open>float64\<close> fields of a pose are client input, so the whole of IEEE 754 binary64
  is there: a value is a NaN, an infinity or finite, and \<open>Fin m e\<close> is the finite
  value \<open>m * 2 ^ e\<close>. A value has more than one such pair, and every operation below
  depends on the value alone; the two zeros are one value, since nothing here tells
  them apart.

  \<open>float64_round p q e\<close> is the \<open>float64\<close> nearest to \<open>p / q * 2 ^ e\<close> (for
  \<open>q > 0\<close>), ties to even: 53 significant bits down to the exponent -1022, the fixed
  spacing \<open>2 ^ -1074\<close> below it (subnormals), and an infinity once the rounded
  magnitude reaches \<open>2 ^ 1024\<close>. In it \<open>lead\<close> is the exponent of the leading bit of
  the exact value and \<open>m\<close> the rounded quotient of \<open>A\<close> by \<open>B\<close>, the exact value
  measured in units of the spacing. \<open>bitlen k\<close> is the number of binary digits of
  \<open>k\<close> and \<open>shl a k\<close> is \<open>a\<close> shifted left by \<open>k \<ge> 0\<close> bits.

  \<open>fmul\<close>, \<open>fadd\<close> and \<open>flt\<close> are Go's \<open>*\<close>, \<open>+\<close> and \<open><\<close> on \<open>float64\<close>. Each
  operation rounds on its own: no multiplication is fused with an addition, as on
  amd64.
\<close>

function bitlen :: "int \<Rightarrow> nat" where
  "bitlen k = (if k \<le> 0 then 0 else Suc (bitlen (k div 2)))"
  by pat_completeness auto
termination
  by (relation "measure nat") auto

declare bitlen.simps [simp del]

datatype float64 = Fin int int | PosInf | NegInf | NaN

definition shl :: "int \<Rightarrow> int \<Rightarrow> int" where
  "shl a k = a * 2 ^ nat k"

definition float64_round :: "int \<Rightarrow> int \<Rightarrow> int \<Rightarrow> float64" where
  "float64_round p q e =
     (if p = 0 then Fin 0 0
      else
        let a = \<bar>p\<bar>;
            b = int (bitlen a) - int (bitlen q);
            lead = (if (if 0 \<le> b then a < shl q b else shl a (- b) < q) then b - 1 else b);
            E = max (lead + e) (- 1022);
            s = E - 52 - e;
            A = (if s \<le> 0 then shl a (- s) else a);
            B = (if s \<le> 0 then q else shl q s);
            n = A div B;
            r = A mod B;
            m = (if B < 2 * r \<or> (2 * r = B \<and> odd n) then n + 1 else n)
        in if 1024 < int (bitlen m) + (E - 52) then (if 0 < p then PosInf else NegInf)
           else Fin (sgn p * m) (E - 52))"

fun fmul :: "float64 \<Rightarrow> float64 \<Rightarrow> float64" where
  "fmul NaN _ = NaN"
| "fmul _ NaN = NaN"
| "fmul (Fin m1 e1) (Fin m2 e2) = float64_round (m1 * m2) 1 (e1 + e2)"
| "fmul (Fin m e) PosInf = (if m = 0 then NaN else if 0 < m then PosInf else NegInf)"
| "fmul (Fin m e) NegInf = (if m = 0 then NaN else if 0 < m then NegInf else PosInf)"
| "fmul PosInf (Fin m e) = (if m = 0 then NaN else if 0 < m then PosInf else NegInf)"
| "fmul NegInf (Fin m e) = (if m = 0 then NaN else if 0 < m then NegInf else PosInf)"
| "fmul PosInf PosInf = PosInf"
| "fmul PosInf NegInf = NegInf"
| "fmul NegInf PosInf = NegInf"
| "fmul NegInf NegInf = PosInf"

fun fadd :: "float64 \<Rightarrow> float64 \<Rightarrow> float64" where
  "fadd NaN _ = NaN"
| "fadd _ NaN = NaN"
| "fadd (Fin m1 e1) (Fin m2 e2) =
     (let e = min e1 e2 in float64_round (shl m1 (e1 - e) + shl m2 (e2 - e)) 1 e)"
| "fadd PosInf NegInf = NaN"
| "fadd NegInf PosInf = NaN"
| "fadd PosInf _ = PosInf"
| "fadd _ PosInf = PosInf"
| "fadd NegInf _ = NegInf"
| "fadd _ NegInf = NegInf"

fun flt :: "float64 \<Rightarrow> float64 \<Rightarrow> bool" where
  "flt NaN _ = False"
| "flt _ NaN = False"
| "flt (Fin m1 e1) (Fin m2 e2) = (let e = min e1 e2 in shl m1 (e1 - e) < shl m2 (e2 - e))"
| "flt NegInf NegInf = False"
| "flt NegInf _ = True"
| "flt PosInf _ = False"
| "flt (Fin m e) PosInf = True"
| "flt (Fin m e) NegInf = False"


subsection \<open>Packets and events\<close>

record PoseData =
  X :: float64
  Y :: float64
  Z :: float64
  Rotation :: "float64 \<times> float64 \<times> float64 \<times> float64"

record MeshData =
  Vertices :: bytes
  Faces :: bytes
  AnchorID :: string

record PacketData =
  Pose :: "PoseData option"
  Mesh :: "MeshData option"

record StreamPacket =
  SessionID :: string
  FrameNumber :: int64
  Timestamp :: int64
  Type :: string
  Data :: PacketData

record Anchor =
  anchor_ID :: string
  anchor_Pose :: PoseData
  anchor_Timestamp :: int64

record MeshDiff =
  mesh_AnchorID :: string
  VerticesDelta :: bytes
  FacesDelta :: bytes
  IsDelta :: bool

record SpatialEvent =
  event_SessionID :: string
  EventID :: string
  event_Timestamp :: int64
  Anchors :: "Anchor list"
  Meshes :: "MeshDiff list"

text \<open>
  Every \<open>fmt.Errorf\<close> of the three components is one constructor; \<open>%w\<close> wrapping is
  a constructor that takes the wrapped error.
\<close>

datatype error =
    MissingSessionID
  | InvalidTimestamp
  | MissingPacketType
  | InvalidPacket error
  | UnknownPacketType string
  | MissingPoseData
  | PoseOutOfBounds
  | QuaternionNotNormalized float64
  | InvalidPose error
  | MissingMeshData
  | EmptyVertices
  | MissingAnchorID
  | MissingEventID
  | MarshalFailed
  | RequestFailed
  | SendFailed
  | BadStatus int
  | GzipFailed

section \<open>Parser (internal/parser)\<close>

text \<open>
  \<open>compress/gzip\<close> is a library: what it does on a buffer is a parameter. A buffer
  either has no valid gzip header (\<open>gzip.NewReader\<close> fails), or has one and fails
  while it is read (\<open>ReadFrom\<close> fails), or inflates to a buffer.
\<close>

datatype gz_result = HeaderError | ReadError | Inflated bytes

definition validatePacket :: "StreamPacket \<Rightarrow> error option" where
  "validatePacket packet =
     (if SessionID packet = [] then Some MissingSessionID
      else if sint (Timestamp packet) \<le> 0 then Some InvalidTimestamp
      else if Type packet = [] then Some MissingPacketType
      else None)"

text \<open>
  In \<open>validatePose\<close> the literals \<open>-1000\<close> and \<open>1000\<close> are exact, \<open>0.9\<close> and \<open>1.1\<close>
  are the \<open>float64\<close> values nearest to 9/10 and 11/10, and the sum of the four
  products is taken left to right, as Go parses it.
\<close>

definition validatePose :: "PoseData \<Rightarrow> error option" where
  "validatePose pose =
     (if flt (X pose) (Fin (- 1000) 0) \<or> flt (Fin 1000 0) (X pose) \<or>
         flt (Y pose) (Fin (- 1000) 0) \<or> flt (Fin 1000 0) (Y pose) \<or>
         flt (Z pose) (Fin (- 1000) 0) \<or> flt (Fin 1000 0) (Z pose)
      then Some PoseOutOfBounds
      else
        (case Rotation pose of (qx, qy, qz, qw) \<Rightarrow>
           let magnitude = fadd (fadd (fadd (fmul qx qx) (fmul qy qy)) (fmul qz qz)) (fmul qw qw)
           in if flt magnitude (float64_round 9 10 0) \<or> flt (float64_round 11 10 0) magnitude
              then Some (QuaternionNotNormalized magnitude)
              else None))"

definition parsePosePacket :: "StreamPacket \<Rightarrow> error + StreamPacket" where
  "parsePosePacket packet =
     (case Pose (Data packet) of
        None \<Rightarrow> Inl MissingPoseData
      | Some pose \<Rightarrow>
          (case validatePose pose of
             Some err \<Rightarrow> Inl (InvalidPose err)
           | None \<Rightarrow> Inr packet))"

definition decompressGzip :: "(bytes \<Rightarrow> gz_result) \<Rightarrow> bytes \<Rightarrow> error + bytes" where
  "decompressGzip gunzip data =
     (case gunzip data of
        HeaderError \<Rightarrow> Inr data
      | ReadError \<Rightarrow> Inr data
      | Inflated result \<Rightarrow> Inr result)"

definition decompressDraco :: "(bytes \<Rightarrow> gz_result) \<Rightarrow> bytes \<Rightarrow> error + bytes" where
  "decompressDraco gunzip data =
     (if length data = 0 then Inr data else decompressGzip gunzip data)"

definition parseMeshPacket :: "(bytes \<Rightarrow> gz_result) \<Rightarrow> StreamPacket \<Rightarrow> error + StreamPacket" where
  "parseMeshPacket gunzip packet =
     (case Mesh (Data packet) of
        None \<Rightarrow> Inl MissingMeshData
      | Some mesh \<Rightarrow>
          if length (Vertices mesh) = 0 then Inl EmptyVertices
          else if AnchorID mesh = [] then Inl MissingAnchorID
          else
            let decompressedVertices =
                  (case decompressDraco gunzip (Vertices mesh) of
                     Inl err \<Rightarrow> Vertices mesh
                   | Inr v \<Rightarrow> v);
                decompressedFaces =
                  (if length (Faces mesh) > 0
                   then (case decompressDraco gunzip (Faces mesh) of
                           Inl err \<Rightarrow> Faces mesh
                         | Inr f \<Rightarrow> f)
                   else [])
            in Inr (packet\<lparr>Data := (Data packet)\<lparr>Mesh := Some
                  \<lparr>Vertices = decompressedVertices,
                   Faces = decompressedFaces,
                   AnchorID = AnchorID mesh\<rparr>\<rparr>\<rparr>))"

definition ParsePacket :: "(bytes \<Rightarrow> gz_result) \<Rightarrow> StreamPacket \<Rightarrow> error + StreamPacket" where
  "ParsePacket gunzip packet =
     (case validatePacket packet of
        Some err \<Rightarrow> Inl (InvalidPacket err)
      | None \<Rightarrow>
          if Type packet = ''pose'' then parsePosePacket packet
          else if Type packet = ''mesh'' then parseMeshPacket gunzip packet
          else Inl (UnknownPacketType (Type packet)))"

section \<open>Transformer (internal/transformer)\<close>

text \<open>
  \<open>uuid.New().String()\<close> draws from a random source outside the program. The
  source is a parameter \<open>uuid\<close> giving the string of the k-th draw, and the number of
  draws made so far is threaded through next to the Transformer.
\<close>

record Transformer =
  anchorMap :: "string \<rightharpoonup> string"

definition New_Transformer :: Transformer where
  "New_Transformer = \<lparr>anchorMap = Map.empty\<rparr>"

definition getOrCreateAnchorID ::
  "(nat \<Rightarrow> string) \<Rightarrow> string \<Rightarrow> Transformer \<times> nat \<Rightarrow> string \<times> Transformer \<times> nat" where
  "getOrCreateAnchorID uuid sessionID s =
     (case s of (t, k) \<Rightarrow>
        (case anchorMap t sessionID of
           Some anchorID \<Rightarrow> (anchorID, t, k)
         | None \<Rightarrow>
             let anchorID = ''anchor_'' @ uuid k
             in (anchorID, t\<lparr>anchorMap := (anchorMap t)(sessionID \<mapsto> anchorID)\<rparr>, Suc k)))"

definition transformPose ::
  "(nat \<Rightarrow> string) \<Rightarrow> SpatialEvent \<Rightarrow> StreamPacket \<Rightarrow> Transformer \<times> nat
     \<Rightarrow> (error + SpatialEvent) \<times> Transformer \<times> nat" where
  "transformPose uuid event packet s =
     (case Pose (Data packet) of
        None \<Rightarrow> (Inr event, s)
      | Some pose \<Rightarrow>
          (case getOrCreateAnchorID uuid (SessionID packet) s of
             (anchorID, s') \<Rightarrow>
               let anchor = \<lparr>anchor_ID = anchorID, anchor_Pose = pose,
                             anchor_Timestamp = Timestamp packet\<rparr>
               in (Inr (event\<lparr>Anchors := Anchors event @ [anchor]\<rparr>), s')))"

definition transformMesh ::
  "SpatialEvent \<Rightarrow> StreamPacket \<Rightarrow> Transformer \<times> nat
     \<Rightarrow> (error + SpatialEvent) \<times> Transformer \<times> nat" where
  "transformMesh event packet s =
     (case Mesh (Data packet) of
        None \<Rightarrow> (Inr event, s)
      | Some mesh \<Rightarrow>
          let meshDiff = \<lparr>mesh_AnchorID = AnchorID mesh, VerticesDelta = Vertices mesh,
                          FacesDelta = Faces mesh, IsDelta = False\<rparr>
          in (Inr (event\<lparr>Meshes := Meshes event @ [meshDiff]\<rparr>), s))"

definition Transform ::
  "(nat \<Rightarrow> string) \<Rightarrow> StreamPacket \<Rightarrow> Transformer \<times> nat
     \<Rightarrow> (error + SpatialEvent) \<times> Transformer \<times> nat" where
  "Transform uuid packet s =
     (case s of (t, k) \<Rightarrow>
        let eventID = uuid k;
            event = \<lparr>event_SessionID = SessionID packet, EventID = eventID,
                     event_Timestamp = Timestamp packet, Anchors = [], Meshes = []\<rparr>
        in if Type packet = ''pose'' then transformPose uuid event packet (t, Suc k)
           else if Type packet = ''mesh'' then transformMesh event packet (t, Suc k)
           else (Inr event, t, Suc k))"

text \<open>
  \<open>NormalizeTimestamp\<close> reads the server clock once; \<open>now\<close> is that reading. All
  arithmetic is Go's \<open>int64\<close>: \<open>*\<close>, \<open>+\<close> and \<open>-\<close> wrap, comparisons are signed.
\<close>

definition NormalizeTimestamp :: "int64 \<Rightarrow> int64 \<Rightarrow> int64" where
  "NormalizeTimestamp now timestamp =
     (let ts = (if timestamp <s 1000000000000 then timestamp * 1000 else timestamp)
      in if now + 60000 <s ts \<or> ts <s now - 3600000 then now else ts)"

definition ValidateEvent :: "SpatialEvent \<Rightarrow> error option" where
  "ValidateEvent event =
     (if event_SessionID event = [] then Some MissingSessionID
      else if EventID event = [] then Some MissingEventID
      else if sint (event_Timestamp event) \<le> 0 then Some InvalidTimestamp
      else None)"

definition ClearStaleSession :: "string \<Rightarrow> Transformer \<Rightarrow> Transformer" where
  "ClearStaleSession sessionID t = t\<lparr>anchorMap := (anchorMap t)(sessionID := None)\<rparr>"

section \<open>Updater (internal/updater)\<close>

subsection \<open>float64 arithmetic on values computed from lengths\<close>

text \<open>
  The Updater's floating-point values are all computed from slice lengths and
  literals, so they are modelled exactly: a finite \<open>float64\<close> is the rational it
  denotes, and every conversion and operation rounds the exact result to 53
  significant bits, to nearest, ties to even (IEEE 754 binary64; the values that
  occur here are far from the overflow and subnormal ranges).
  \<open>pow2 k\<close> is 2 to the k, and \<open>ilog2 x\<close> is the binary exponent of a positive
  \<open>x\<close>, found from the digit counts (\<open>bitlen\<close>) of its numerator and denominator.
\<close>

definition pow2 :: "int \<Rightarrow> rat" where
  "pow2 k = (if 0 \<le> k then 2 ^ nat k else 1 / 2 ^ nat (- k))"

definition ilog2 :: "rat \<Rightarrow> int" where
  "ilog2 x =
     (case quotient_of x of (p, q) \<Rightarrow>
        let e = int (bitlen p) - int (bitlen q)
        in if x < pow2 e then e - 1 else e)"

definition f64_round :: "rat \<Rightarrow> rat" where
  "f64_round x =
     (if x = 0 then 0
      else
        let u = pow2 (ilog2 \<bar>x\<bar> - 52);
            t = \<bar>x\<bar> / u;
            n = \<lfloor>t\<rfloor>;
            f = t - of_int n;
            m = (if f < 1 / 2 \<or> (f = 1 / 2 \<and> even n) then n else n + 1)
        in sgn x * of_int m * u)"

text \<open>\<open>float64(n)\<close> of an integer, \<open>a * b\<close>, \<open>a / b\<close> and \<open>int(x)\<close> (truncation).\<close>

definition f64_of_nat :: "nat \<Rightarrow> rat" where
  "f64_of_nat n = f64_round (of_nat n)"

definition f64_mul :: "rat \<Rightarrow> rat \<Rightarrow> rat" where
  "f64_mul a b = f64_round (a * b)"

definition f64_div :: "rat \<Rightarrow> rat \<Rightarrow> rat" where
  "f64_div a b = f64_round (a / b)"

definition f64_to_int :: "rat \<Rightarrow> int" where
  "f64_to_int x = (if 0 \<le> x then \<lfloor>x\<rfloor> else \<lceil>x\<rceil>)"

subsection \<open>State and mesh diffing\<close>

text \<open>
  The fields of the Updater that its operations read or write. \<open>batchSize\<close> is only
  compared with a length, so it is an \<open>int\<close>; the mutexes, the HTTP client and the
  stop channel have no counterpart here.
\<close>

record Updater =
  batchSize :: int
  eventQueue :: "SpatialEvent list"
  lastMeshes :: "string \<rightharpoonup> bytes"
  compressionEnabled :: bool

definition New_Updater :: "int \<Rightarrow> Updater" where
  "New_Updater bs =
     \<lparr>batchSize = bs, eventQueue = [], lastMeshes = Map.empty, compressionEnabled = True\<rparr>"

fun countMatches :: "bytes \<Rightarrow> bytes \<Rightarrow> nat" where
  "countMatches (x # xs) (y # ys) = (if x = y then Suc (countMatches xs ys) else countMatches xs ys)"
| "countMatches _ _ = 0"

definition calculateVertexSimilarity :: "bytes \<Rightarrow> bytes \<Rightarrow> rat" where
  "calculateVertexSimilarity a b =
     (if length a \<noteq> length b then 0
      else if length a = 0 then 1
      else f64_div (f64_of_nat (countMatches a b)) (f64_of_nat (length a)))"

definition createVertexDelta :: "bytes \<Rightarrow> bytes \<Rightarrow> bytes" where
  "createVertexDelta old new =
     (if length old \<noteq> length new then new
      else map (\<lambda>(a, b). a XOR b) (zip old new))"

text \<open>
  One iteration of the loop of \<open>applyMeshDiffing\<close> over \<open>event.Meshes\<close>: the mesh
  appended to \<open>processedMeshes\<close> and the map \<open>lastMeshes\<close> after it. The literals
  \<open>0.8\<close> and \<open>0.7\<close> are the \<open>float64\<close> values nearest to them.
\<close>

definition applyMeshDiffing_body ::
  "MeshDiff \<Rightarrow> (string \<rightharpoonup> bytes) \<Rightarrow> MeshDiff \<times> (string \<rightharpoonup> bytes)" where
  "applyMeshDiffing_body mesh lm =
     (if IsDelta mesh then (mesh, lm)
      else
        (case lm (mesh_AnchorID mesh) of
           None \<Rightarrow> (mesh, lm(mesh_AnchorID mesh \<mapsto> VerticesDelta mesh))
         | Some lastVertices \<Rightarrow>
             if length lastVertices = 0
             then (mesh, lm(mesh_AnchorID mesh \<mapsto> VerticesDelta mesh))
             else
               let similarity = calculateVertexSimilarity lastVertices (VerticesDelta mesh) in
               if similarity > f64_round (8 / 10) then
                 let delta = createVertexDelta lastVertices (VerticesDelta mesh) in
                 if int (length delta)
                      < f64_to_int (f64_mul (f64_of_nat (length (VerticesDelta mesh)))
                                            (f64_round (7 / 10)))
                 then (\<lparr>mesh_AnchorID = mesh_AnchorID mesh, VerticesDelta = delta,
                        FacesDelta = FacesDelta mesh, IsDelta = True\<rparr>,
                       lm(mesh_AnchorID mesh \<mapsto> VerticesDelta mesh))
                 else (mesh, lm(mesh_AnchorID mesh \<mapsto> VerticesDelta mesh))
               else (mesh, lm(mesh_AnchorID mesh \<mapsto> VerticesDelta mesh))))"

fun applyMeshDiffing_loop ::
  "MeshDiff list \<Rightarrow> MeshDiff list \<Rightarrow> (string \<rightharpoonup> bytes)
     \<Rightarrow> MeshDiff list \<times> (string \<rightharpoonup> bytes)" where
  "applyMeshDiffing_loop [] processedMeshes lm = (processedMeshes, lm)"
| "applyMeshDiffing_loop (mesh # rest) processedMeshes lm =
     (case applyMeshDiffing_body mesh lm of
        (out, lm') \<Rightarrow> applyMeshDiffing_loop rest (processedMeshes @ [out]) lm')"

definition applyMeshDiffing :: "SpatialEvent \<Rightarrow> Updater \<Rightarrow> SpatialEvent \<times> Updater" where
  "applyMeshDiffing event u =
     (if length (Meshes event) = 0 then (event, u)
      else
        (case applyMeshDiffing_loop (Meshes event) [] (lastMeshes u) of
           (processedMeshes, lm') \<Rightarrow>
             (event\<lparr>Meshes := processedMeshes\<rparr>, u\<lparr>lastMeshes := lm'\<rparr>)))"

text \<open>
  \<open>ProcessEvent\<close> appends to the queue; the flag says whether it started a
  \<open>flushBatch\<close> goroutine.
\<close>

definition ProcessEvent :: "SpatialEvent \<Rightarrow> Updater \<Rightarrow> (error option \<times> bool) \<times> Updater" where
  "ProcessEvent event u =
     (case applyMeshDiffing event u of
        (processedEvent, u') \<Rightarrow>
          let u'' = u'\<lparr>eventQueue := eventQueue u' @ [processedEvent]\<rparr>
          in ((None, int (length (eventQueue u'')) \<ge> batchSize u''), u''))"

subsection \<open>Delivery\<close>

text \<open>
  Two library calls are parameters. \<open>gzip_Write\<close> is what writing a buffer through
  a gzip writer gives (the compressed bytes, or the writer's error). \<open>post\<close> stands
  for marshalling the batch, building the request and \<open>httpClient.Do\<close>: it gives
  the error of whichever of the three failed, or else the status code of the
  response.
\<close>

definition compressMeshData ::
  "(bytes \<Rightarrow> error + bytes) \<Rightarrow> Updater \<Rightarrow> bytes \<Rightarrow> error + (bytes \<times> int)" where
  "compressMeshData gzip_Write u vertices =
     (if length vertices = 0 \<or> \<not> compressionEnabled u then Inr (vertices, 0)
      else
        (case gzip_Write vertices of
           Inl err \<Rightarrow> Inl GzipFailed
         | Inr compressedData \<Rightarrow>
             Inr (compressedData, int (length vertices) - int (length compressedData))))"

definition compressMesh :: "(bytes \<Rightarrow> error + bytes) \<Rightarrow> Updater \<Rightarrow> MeshDiff \<Rightarrow> MeshDiff" where
  "compressMesh gzip_Write u mesh =
     (if length (VerticesDelta mesh) > 0
      then (case compressMeshData gzip_Write u (VerticesDelta mesh) of
              Inl err \<Rightarrow> mesh
            | Inr (compressed, bytesSaved) \<Rightarrow> mesh\<lparr>VerticesDelta := compressed\<rparr>)
      else mesh)"

definition sendToSTAG ::
  "(bytes \<Rightarrow> error + bytes) \<Rightarrow> (SpatialEvent list \<Rightarrow> error + int) \<Rightarrow> Updater
     \<Rightarrow> SpatialEvent list \<Rightarrow> error option" where
  "sendToSTAG gzip_Write post u events =
     (if length events = 0 then None
      else
        let compressedEvents =
              map (\<lambda>ev. ev\<lparr>Meshes := map (compressMesh gzip_Write u) (Meshes ev)\<rparr>) events
        in (case post compressedEvents of
              Inl err \<Rightarrow> Some err
            | Inr statusCode \<Rightarrow>
                if statusCode \<noteq> 200 then Some (BadStatus statusCode) else None))"

text \<open>What one call of \<open>flushBatch\<close> did, next to the state it leaves.\<close>

datatype flush_outcome = NothingPending | Delivered | FailureLogged error

definition flushBatch ::
  "(bytes \<Rightarrow> error + bytes) \<Rightarrow> (SpatialEvent list \<Rightarrow> error + int) \<Rightarrow> Updater
     \<Rightarrow> flush_outcome \<times> Updater" where
  "flushBatch gzip_Write post u =
     (if length (eventQueue u) = 0 then (NothingPending, u)
      else
        let events = eventQueue u;
            u' = u\<lparr>eventQueue := []\<rparr>
        in (case sendToSTAG gzip_Write post u' events of
              Some err \<Rightarrow> (FailureLogged err, u')
            | None \<Rightarrow> (Delivered, u')))"

definition ClearMeshHistory :: "string \<Rightarrow> Updater \<Rightarrow> Updater" where
  "ClearMeshHistory anchorID u = u\<lparr>lastMeshes := (lastMeshes u)(anchorID := None)\<rparr>"

section \<open>Reference definitions and sample inputs\<close>












text \<open>
  \<open>NormalizeTimestamp\<close> as the specification words it, over the mathematical
  integers.
\<close>

definition NormalizeTimestamp_spec :: "int \<Rightarrow> int \<Rightarrow> int" where
  "NormalizeTimestamp_spec now t =
     (let t' = (if t < 10 ^ 12 then t * 1000 else t)
      in if t' > now + 60000 \<or> t' < now - 3600000 then now else t')"

text \<open>A packet of type pose or mesh whose payload pointer is nil.\<close>

definition payload_absent :: "StreamPacket \<Rightarrow> bool" where
  "payload_absent packet =
     ((Type packet = ''pose'' \<and> Pose (Data packet) = None) \<or>
      (Type packet = ''mesh'' \<and> Mesh (Data packet) = None))"

text \<open>
  The Transformer's part of \<open>processMessages\<close>: the packets go through \<open>Transform\<close>
  one after the other, a failed one is skipped.
\<close>

fun Transform_all ::
  "(nat \<Rightarrow> string) \<Rightarrow> StreamPacket list \<Rightarrow> Transformer \<times> nat
     \<Rightarrow> SpatialEvent list \<times> Transformer \<times> nat" where
  "Transform_all uuid [] s = ([], s)"
| "Transform_all uuid (packet # rest) s =
     (case Transform uuid packet s of
        (Inl err, s') \<Rightarrow> Transform_all uuid rest s'
      | (Inr event, s') \<Rightarrow>
          (case Transform_all uuid rest s' of (events, s'') \<Rightarrow> (event # events, s'')))"

text \<open>
  The invariant of the anchor map behind anchor stability: every stored anchor id was
  made from a draw that has been made, and no two sessions store the same one.
\<close>

definition anchors_drawn :: "(nat \<Rightarrow> string) \<Rightarrow> Transformer \<times> nat \<Rightarrow> bool" where
  "anchors_drawn uuid s =
     (case s of (t, k) \<Rightarrow>
        (\<forall>sid a. anchorMap t sid = Some a \<longrightarrow> (\<exists>j<k. a = ''anchor_'' @ uuid j)) \<and>
        (\<forall>s1 s2 a. anchorMap t s1 = Some a \<and> anchorMap t s2 = Some a \<longrightarrow> s1 = s2))"

text \<open>Sample inputs: packets, an injective stand-in for the UUID source, a stand-in
  for the gzip reader, and the two vertex buffers of the specification's mesh scenario.\<close>

definition quaternion_packet :: "float64 \<times> float64 \<times> float64 \<Rightarrow> float64 \<times> float64 \<times> float64 \<times> float64
    \<Rightarrow> StreamPacket" where
  "quaternion_packet pos q =
     (case pos of (x, y, z) \<Rightarrow>
        \<lparr>SessionID = ''s1'', FrameNumber = 1, Timestamp = 1700000000000, Type = ''pose'',
         Data = \<lparr>Pose = Some \<lparr>X = x, Y = y, Z = z, Rotation = q\<rparr>, Mesh = None\<rparr>\<rparr>)"

text \<open>
  \<open>boundary_pose_packet\<close> has the rotation \<open>[0.3, 0.9, 0, 0]\<close> of a JSON frame (the
  \<open>float64\<close> values nearest to 0.3 and 0.9), \<open>upper_boundary_pose_packet\<close> has
  \<open>[0, 0, 0, 1.0488088481701516]\<close>, \<open>inside_band_pose_packet\<close> has
  \<open>[0.3033685109329176, 0.5875806061435594, 0.6802327380083316, 0]\<close>,
  \<open>decimal_bound_pose_packet\<close> has \<open>[0.4, 0.5, 0.7, 0]\<close>, whose decimal squares add
  up to 0.9, and \<open>nan_pose_packet\<close> has a NaN coordinate.
\<close>

definition boundary_pose_packet :: StreamPacket where
  "boundary_pose_packet =
     quaternion_packet (Fin 1000 0, Fin (- 1000) 0, Fin 1000 0)
       (Fin 5404319552844595 (- 54), Fin 8106479329266893 (- 53), Fin 0 0, Fin 0 0)"





definition nil_pose_packet :: StreamPacket where
  "nil_pose_packet =
     \<lparr>SessionID = ''s1'', FrameNumber = 1, Timestamp = 1700000000000, Type = ''pose'',
      Data = \<lparr>Pose = None, Mesh = None\<rparr>\<rparr>"

definition uuid_of_nat :: "nat \<Rightarrow> string" where
  "uuid_of_nat k = replicate (Suc k) (CHR ''u'')"

definition pose_packet :: "string \<Rightarrow> float64 \<Rightarrow> StreamPacket" where
  "pose_packet sid x =
     \<lparr>SessionID = sid, FrameNumber = 1, Timestamp = 1700000000000, Type = ''pose'',
      Data = \<lparr>Pose = Some \<lparr>X = x, Y = Fin 5 (- 1), Z = Fin 7 (- 1),
                            Rotation = (Fin 0 0, Fin 0 0, Fin 0 0, Fin 1 0)\<rparr>,
              Mesh = None\<rparr>\<rparr>"

definition stub_gunzip :: "bytes \<Rightarrow> gz_result" where
  "stub_gunzip d = (if take 2 d = [31, 139] then Inflated (drop 2 d) else HeaderError)"

definition mesh_packet :: "bytes \<Rightarrow> StreamPacket" where
  "mesh_packet vs =
     \<lparr>SessionID = ''s1'', FrameNumber = 1, Timestamp = 1700000000000, Type = ''mesh'',
      Data = \<lparr>Pose = None,
              Mesh = Some \<lparr>Vertices = vs, Faces = [], AnchorID = ''a1''\<rparr>\<rparr>\<rparr>"

definition mesh_event :: "string \<Rightarrow> bytes \<Rightarrow> SpatialEvent" where
  "mesh_event eid vs =
     \<lparr>event_SessionID = ''s1'', EventID = eid, event_Timestamp = 1700000000000, Anchors = [],
      Meshes = [\<lparr>mesh_AnchorID = ''a1'', VerticesDelta = vs, FacesDelta = [0, 1, 2],
                 IsDelta = False\<rparr>]\<rparr>"

definition vertices_first :: bytes where
  "vertices_first = [0, 1, 2, 3, 4, 5, 6, 7, 8, 9, 10, 11]"

definition vertices_second :: bytes where
  "vertices_second = [0, 1, 2, 3, 4, 5, 6, 7, 8, 9, 10, 99]"

section \<open>Properties of the Parser\<close>

text \<open>
  C4. Whatever \<open>ParsePacket\<close> accepts comes out with the session id, frame number,
  timestamp and type it came in with; and the vertex buffer of an accepted mesh packet
  is either the input buffer itself or what the gzip reader inflated it to.
\<close>

theorem ParsePacket_preserves:
  assumes "ParsePacket gunzip packet = Inr out"
  shows "SessionID out = SessionID packet \<and> FrameNumber out = FrameNumber packet \<and>
         Timestamp out = Timestamp packet \<and> Type out = Type packet \<and>
         (Type packet = ''mesh'' \<longrightarrow>
            (\<exists>mi mo. Mesh (Data packet) = Some mi \<and> Mesh (Data out) = Some mo \<and>
               (Vertices mo = Vertices mi \<or> gunzip (Vertices mi) = Inflated (Vertices mo))))"
  using assms
  by (auto simp: ParsePacket_def parsePosePacket_def parseMeshPacket_def decompressDraco_def
        decompressGzip_def Let_def
      split: option.splits if_splits gz_result.splits)

theorem ParsePacket_preserves_witness:
  "ParsePacket stub_gunzip (mesh_packet [31, 139, 7, 8]) = Inr (mesh_packet [7, 8]) \<and>
   SessionID (mesh_packet [7, 8]) = SessionID (mesh_packet [31, 139, 7, 8]) \<and>
   Type (mesh_packet [7, 8]) = Type (mesh_packet [31, 139, 7, 8]) \<and>
   stub_gunzip [31, 139, 7, 8] = Inflated [7, 8]"
proof -
  have run: "ParsePacket stub_gunzip (mesh_packet [31, 139, 7, 8]) = Inr (mesh_packet [7, 8])"
    by (simp add: ParsePacket_def validatePacket_def parseMeshPacket_def decompressDraco_def
          decompressGzip_def stub_gunzip_def mesh_packet_def)
  from ParsePacket_preserves [OF run] run show ?thesis
    by (simp add: mesh_packet_def stub_gunzip_def)
qed


text \<open>
  What rounding does at the two literals, at a tie, below the normal range and at the
  top of the range.
\<close>

lemma float64_round_samples:
  "float64_round 9 10 0 = Fin 8106479329266893 (- 53)"
  "float64_round 11 10 0 = Fin 4953959590107546 (- 52)"
  "float64_round (2 ^ 53 + 1) 1 0 = Fin (2 ^ 52) 1"
  "float64_round (2 ^ 53 + 3) 1 0 = Fin (2 ^ 52 + 2) 1"
  "float64_round 1 1 (- 1075) = Fin 0 (- 1074)"
  "float64_round 3 1 (- 1075) = Fin 2 (- 1074)"
  "float64_round (2 ^ 54 - 3) 1 970 = Fin (2 ^ 53 - 2) 971"
  "float64_round (2 ^ 54 - 1) 1 970 = PosInf"
  "fmul (Fin 1 600) (Fin (- 1) 600) = NegInf"
  by code_simp+












section \<open>Properties of the Transformer\<close>

lemma Transform_event_fields:
  assumes "Transform uuid packet (t, k) = (r, s')"
  shows "\<exists>ev. r = Inr ev \<and> event_SessionID ev = SessionID packet \<and> EventID ev = uuid k \<and>
           event_Timestamp ev = Timestamp packet"
  using assms
  by (auto simp: Transform_def transformPose_def transformMesh_def getOrCreateAnchorID_def Let_def
      split: if_splits option.splits prod.splits)

lemma Transform_cases:
  assumes "Transform uuid packet (t, k) = (r, t', k')"
  obtains (same) ev where "r = Inr ev" "event_SessionID ev = SessionID packet"
      "t' = t" "k' = Suc k"
      "\<forall>a \<in> set (Anchors ev). anchorMap t (SessionID packet) = Some (anchor_ID a)"
    | (new) ev where "r = Inr ev" "event_SessionID ev = SessionID packet"
      "anchorMap t (SessionID packet) = None"
      "t' = t\<lparr>anchorMap := (anchorMap t)(SessionID packet \<mapsto> ''anchor_'' @ uuid (Suc k))\<rparr>"
      "k' = Suc (Suc k)"
      "\<forall>a \<in> set (Anchors ev). anchor_ID a = ''anchor_'' @ uuid (Suc k)"
proof (cases "Type packet = ''pose'' \<and> Pose (Data packet) \<noteq> None")
  case False
  with assms have "\<exists>ev. r = Inr ev \<and> event_SessionID ev = SessionID packet \<and> t' = t \<and>
      k' = Suc k \<and> Anchors ev = []"
    by (auto simp: Transform_def transformPose_def transformMesh_def Let_def
        split: option.splits if_splits)
  then show ?thesis using same by auto
next
  case True
  then obtain pose where p: "Type packet = ''pose''" "Pose (Data packet) = Some pose" by auto
  show ?thesis
  proof (cases "anchorMap t (SessionID packet)")
    case None
    with assms p have "\<exists>ev. r = Inr ev \<and> event_SessionID ev = SessionID packet \<and>
      t' = t\<lparr>anchorMap := (anchorMap t)(SessionID packet \<mapsto> ''anchor_'' @ uuid (Suc k))\<rparr> \<and>
      k' = Suc (Suc k) \<and> (\<forall>a \<in> set (Anchors ev). anchor_ID a = ''anchor_'' @ uuid (Suc k))"
      by (auto simp: Transform_def transformPose_def getOrCreateAnchorID_def Let_def)
    then show ?thesis using new None by auto
  next
    case (Some a0)
    with assms p have "\<exists>ev. r = Inr ev \<and> event_SessionID ev = SessionID packet \<and> t' = t \<and>
      k' = Suc k \<and> (\<forall>a \<in> set (Anchors ev). anchor_ID a = a0)"
      by (auto simp: Transform_def transformPose_def getOrCreateAnchorID_def Let_def)
    then show ?thesis using same Some by auto
  qed
qed


lemma Transform_map_le:
  assumes "Transform uuid packet (t, k) = (r, t', k')"
  shows "anchorMap t \<subseteq>\<^sub>m anchorMap t'"
  using assms
proof (cases rule: Transform_cases)
  case (same ev)
  then show ?thesis by simp
next
  case (new ev)
  then show ?thesis by (auto simp: map_le_def)
qed

lemma Transform_anchor_stored:
  assumes "Transform uuid packet (t, k) = (r, t', k')"
  shows "\<exists>ev. r = Inr ev \<and>
           (\<forall>a \<in> set (Anchors ev). anchorMap t' (event_SessionID ev) = Some (anchor_ID a))"
  using assms
proof (cases rule: Transform_cases)
  case (same ev)
  then show ?thesis by simp
next
  case (new ev)
  then show ?thesis by simp
qed

lemma Transform_anchors_drawn:
  assumes "Transform uuid packet (t, k) = (r, t', k')"
    and i: "inj uuid" and d: "anchors_drawn uuid (t, k)"
  shows "anchors_drawn uuid (t', k')"
  using assms(1)
proof (cases rule: Transform_cases)
  case (same ev)
  have "\<exists>j<Suc k. a = ''anchor_'' @ uuid j" if "anchorMap t sid = Some a" for sid a
  proof -
    from d that obtain j where "j < k" "a = ''anchor_'' @ uuid j"
      unfolding anchors_drawn_def by auto
    then show ?thesis using less_SucI by blast
  qed
  moreover have "s1 = s2" if "anchorMap t s1 = Some a" "anchorMap t s2 = Some a" for s1 s2 a
    using d that unfolding anchors_drawn_def by auto
  ultimately show ?thesis
    using same(3,4) unfolding anchors_drawn_def by simp blast
next
  case (new ev)
  let ?sid = "SessionID packet" and ?a = "''anchor_'' @ uuid (Suc k)"
  have old: "\<exists>j<k. a = ''anchor_'' @ uuid j" if "anchorMap t sid = Some a" for sid a
    using d that unfolding anchors_drawn_def by auto
  have fresh: "anchorMap t sid \<noteq> Some ?a" for sid
  proof
    assume "anchorMap t sid = Some ?a"
    from old [OF this] obtain j where "j < k" "?a = ''anchor_'' @ uuid j" by blast
    then have "uuid (Suc k) = uuid j" by simp
    with i have "Suc k = j" by (simp add: inj_eq)
    with \<open>j < k\<close> show False by simp
  qed
  have m: "anchorMap t' sid = (if sid = ?sid then Some ?a else anchorMap t sid)" for sid
    using new(4) by simp
  have "\<exists>j<Suc (Suc k). a = ''anchor_'' @ uuid j" if "anchorMap t' sid = Some a" for sid a
  proof (cases "sid = ?sid")
    case True
    with that m have "a = ?a" by simp
    then show ?thesis by blast
  next
    case False
    with that m have "anchorMap t sid = Some a" by simp
    from old [OF this] obtain j where "j < k" "a = ''anchor_'' @ uuid j" by blast
    then have "j < Suc (Suc k)" by simp
    with \<open>a = ''anchor_'' @ uuid j\<close> show ?thesis by blast
  qed
  moreover have "s1 = s2" if h: "anchorMap t' s1 = Some a" "anchorMap t' s2 = Some a" for s1 s2 a
  proof (cases "s1 = ?sid")
    case True
    with h(1) m have a: "a = ?a" by simp
    show ?thesis
    proof (rule ccontr)
      assume "s1 \<noteq> s2"
      with True h(2) m a have "anchorMap t s2 = Some ?a" by simp
      with fresh show False by blast
    qed
  next
    case False
    with h(1) m have 1: "anchorMap t s1 = Some a" by simp
    with fresh have "a \<noteq> ?a" by blast
    with h(2) m have "anchorMap t s2 = Some a" by (simp split: if_splits)
    with 1 d show ?thesis unfolding anchors_drawn_def by auto
  qed
  ultimately show ?thesis
    using new(5) unfolding anchors_drawn_def by simp blast
qed


lemma Transform_all_anchors:
  assumes "Transform_all uuid ps s = (evs, s')"
  shows "anchorMap (fst s) \<subseteq>\<^sub>m anchorMap (fst s') \<and>
         (\<forall>ev \<in> set evs. \<forall>a \<in> set (Anchors ev).
            anchorMap (fst s') (event_SessionID ev) = Some (anchor_ID a)) \<and>
         (inj uuid \<longrightarrow> anchors_drawn uuid s \<longrightarrow> anchors_drawn uuid s')"
  using assms
proof (induction ps arbitrary: s evs)
  case Nil
  then show ?case by simp
next
  case (Cons p ps)
  obtain t k where s: "s = (t, k)" by (cases s)
  obtain r t1 k1 where tr: "Transform uuid p (t, k) = (r, t1, k1)"
    by (cases "Transform uuid p (t, k)")
  from Transform_anchor_stored [OF tr] obtain ev where ev: "r = Inr ev"
    "\<forall>a \<in> set (Anchors ev). anchorMap t1 (event_SessionID ev) = Some (anchor_ID a)"
    by blast
  obtain evs1 where rest: "Transform_all uuid ps (t1, k1) = (evs1, s')" and evs: "evs = ev # evs1"
    using Cons.prems s tr ev(1) by (auto split: prod.splits)
  note ih = Cons.IH [OF rest]
  have le1: "anchorMap t1 \<subseteq>\<^sub>m anchorMap (fst s')" using ih by simp
  have le: "anchorMap (fst s) \<subseteq>\<^sub>m anchorMap (fst s')"
    using Transform_map_le [OF tr] le1 s by (auto intro: map_le_trans)
  have here: "anchorMap (fst s') (event_SessionID ev) = Some (anchor_ID a)"
    if "a \<in> set (Anchors ev)" for a
  proof -
    from that ev(2) have "anchorMap t1 (event_SessionID ev) = Some (anchor_ID a)" by blast
    with le1 show ?thesis by (metis domI map_le_def)
  qed
  have inv: "anchors_drawn uuid s'" if "inj uuid" "anchors_drawn uuid s"
  proof -
    from that s have "anchors_drawn uuid (t1, k1)"
      using Transform_anchors_drawn [OF tr] by simp
    with that(1) ih show ?thesis by simp
  qed
  show ?case
  proof (intro conjI ballI impI)
    show "anchorMap (fst s) \<subseteq>\<^sub>m anchorMap (fst s')" by (rule le)
  next
    fix e a assume e: "e \<in> set evs" and a: "a \<in> set (Anchors e)"
    show "anchorMap (fst s') (event_SessionID e) = Some (anchor_ID a)"
    proof (cases "e = ev")
      case True
      with a here show ?thesis by simp
    next
      case False
      with e evs have "e \<in> set evs1" by simp
      with a ih show ?thesis by blast
    qed
  next
    assume "inj uuid" "anchors_drawn uuid s"
    then show "anchors_drawn uuid s'" by (rule inv)
  qed
qed

lemma inj_uuid_of_nat: "inj uuid_of_nat"
proof (rule injI)
  fix a b assume "uuid_of_nat a = uuid_of_nat b"
  then have "length (uuid_of_nat a) = length (uuid_of_nat b)" by simp
  then show "a = b" by (simp add: uuid_of_nat_def)
qed

text \<open>
  C3. Starting from a new Transformer and running any packets through \<open>Transform\<close>,
  two anchors that come out for the same session id carry the same anchor id, and, when
  the UUID source never repeats, two anchors for different session ids carry different
  ones.
\<close>

theorem anchor_id_function_of_session:
  assumes "Transform_all uuid packets (New_Transformer, k0) = (events, s')"
    and "ev1 \<in> set events" and "a1 \<in> set (Anchors ev1)"
    and "ev2 \<in> set events" and "a2 \<in> set (Anchors ev2)"
  shows "(event_SessionID ev1 = event_SessionID ev2 \<longrightarrow> anchor_ID a1 = anchor_ID a2) \<and>
         (inj uuid \<longrightarrow> event_SessionID ev1 \<noteq> event_SessionID ev2 \<longrightarrow> anchor_ID a1 \<noteq> anchor_ID a2)"
proof -
  note all = Transform_all_anchors [OF assms(1)]
  have m1: "anchorMap (fst s') (event_SessionID ev1) = Some (anchor_ID a1)"
    using all assms(2,3) by blast
  have m2: "anchorMap (fst s') (event_SessionID ev2) = Some (anchor_ID a2)"
    using all assms(4,5) by blast
  have init: "anchors_drawn uuid (New_Transformer, k0)"
    by (simp add: anchors_drawn_def New_Transformer_def)
  have "anchor_ID a1 \<noteq> anchor_ID a2"
    if "inj uuid" "event_SessionID ev1 \<noteq> event_SessionID ev2"
  proof
    assume eq: "anchor_ID a1 = anchor_ID a2"
    from all that(1) init have "anchors_drawn uuid s'" by blast
    then have "\<And>s1 s2 a. anchorMap (fst s') s1 = Some a \<Longrightarrow> anchorMap (fst s') s2 = Some a \<Longrightarrow> s1 = s2"
      by (cases s') (auto simp: anchors_drawn_def)
    from this [OF m1] m2 eq have "event_SessionID ev1 = event_SessionID ev2" by simp
    with that(2) show False by simp
  qed
  moreover have "anchor_ID a1 = anchor_ID a2" if "event_SessionID ev1 = event_SessionID ev2"
    using m1 m2 that by simp
  ultimately show ?thesis by blast
qed

theorem anchor_id_function_of_session_witness:
  "inj uuid_of_nat \<and>
   map (\<lambda>ev. (event_SessionID ev, map anchor_ID (Anchors ev)))
     (fst (Transform_all uuid_of_nat
        [pose_packet ''s1'' (Fin 3 (- 1)), pose_packet ''s1'' (Fin 4 0),
         pose_packet ''s2'' (Fin 3 (- 1))]
        (New_Transformer, 0)))
   = [(''s1'', [''anchor_uu'']), (''s1'', [''anchor_uu'']), (''s2'', [''anchor_uuuuu''])]"
proof -
  let ?pose = "\<lambda>x. \<lparr>X = x, Y = Fin 5 (- 1), Z = Fin 7 (- 1),
                    Rotation = (Fin 0 0, Fin 0 0, Fin 0 0, Fin 1 0)\<rparr>"
  let ?a1 = "\<lparr>anchor_ID = ''anchor_uu'', anchor_Pose = ?pose (Fin 3 (- 1)),
               anchor_Timestamp = 1700000000000\<rparr>"
  let ?a2 = "\<lparr>anchor_ID = ''anchor_uu'', anchor_Pose = ?pose (Fin 4 0),
               anchor_Timestamp = 1700000000000\<rparr>"
  let ?a3 = "\<lparr>anchor_ID = ''anchor_uuuuu'', anchor_Pose = ?pose (Fin 3 (- 1)),
               anchor_Timestamp = 1700000000000\<rparr>"
  let ?ev = "\<lambda>sid eid a. \<lparr>event_SessionID = sid, EventID = eid,
               event_Timestamp = 1700000000000, Anchors = [a], Meshes = []\<rparr>"
  let ?e1 = "?ev ''s1'' ''u'' ?a1" and ?e2 = "?ev ''s1'' ''uuu'' ?a2"
    and ?e3 = "?ev ''s2'' ''uuuu'' ?a3"
  let ?s = "(\<lparr>anchorMap = [''s1'' \<mapsto> ''anchor_uu'', ''s2'' \<mapsto> ''anchor_uuuuu'']\<rparr>, 5 :: nat)"
  have run: "Transform_all uuid_of_nat
        [pose_packet ''s1'' (Fin 3 (- 1)), pose_packet ''s1'' (Fin 4 0),
         pose_packet ''s2'' (Fin 3 (- 1))]
        (New_Transformer, 0) = ([?e1, ?e2, ?e3], ?s)"
    by (simp add: Transform_def transformPose_def getOrCreateAnchorID_def pose_packet_def
          New_Transformer_def uuid_of_nat_def Let_def eval_nat_numeral)
  have same: "anchor_ID ?a1 = anchor_ID ?a2"
    using anchor_id_function_of_session [OF run, of ?e1 ?a1 ?e2 ?a2] by simp
  have "anchor_ID ?a1 \<noteq> anchor_ID ?a3"
    using anchor_id_function_of_session [OF run, of ?e1 ?a1 ?e3 ?a3] inj_uuid_of_nat by simp
  with same run inj_uuid_of_nat show ?thesis by simp
qed

text \<open>
  C9. The event \<open>Transform\<close> builds from a packet that \<open>ParsePacket\<close> accepted passes
  \<open>ValidateEvent\<close>: its session id is the packet's and is not empty, its event id is
  the string just drawn from the UUID source (never empty, as UUID strings are), and its
  timestamp is the packet's and is positive.
\<close>

theorem Transform_event_valid:
  assumes "ParsePacket gunzip packet = Inr parsed"
    and "\<forall>j. uuid j \<noteq> []"
  shows "\<exists>ev s'. Transform uuid parsed (t, k) = (Inr ev, s') \<and>
           ValidateEvent ev = None \<and>
           event_SessionID ev = SessionID packet \<and> event_SessionID ev \<noteq> [] \<and>
           EventID ev = uuid k \<and> EventID ev \<noteq> [] \<and>
           event_Timestamp ev = Timestamp packet \<and> 0 < sint (event_Timestamp ev)"
proof -
  have "validatePacket packet = None"
    using assms(1) by (auto simp: ParsePacket_def split: option.splits)
  then have ok: "SessionID packet \<noteq> []" "0 < sint (Timestamp packet)"
    by (auto simp: validatePacket_def split: if_splits)
  have same: "SessionID parsed = SessionID packet" "Timestamp parsed = Timestamp packet"
    using assms(1)
    by (auto simp: ParsePacket_def parsePosePacket_def parseMeshPacket_def Let_def
        split: option.splits if_splits)
  obtain r s' where tr: "Transform uuid parsed (t, k) = (r, s')"
    by (cases "Transform uuid parsed (t, k)")
  from Transform_event_fields [OF tr] obtain ev where ev: "r = Inr ev"
    "event_SessionID ev = SessionID parsed" "EventID ev = uuid k"
    "event_Timestamp ev = Timestamp parsed" by blast
  have "ValidateEvent ev = None"
    using ev ok same assms(2) by (simp add: ValidateEvent_def)
  with tr ev ok same assms(2) show ?thesis by auto
qed

theorem Transform_event_valid_witness:
  "ParsePacket stub_gunzip boundary_pose_packet = Inr boundary_pose_packet \<and>
   (\<forall>j. uuid_of_nat j \<noteq> []) \<and>
   (\<exists>ev s'. Transform uuid_of_nat boundary_pose_packet (New_Transformer, 0) = (Inr ev, s') \<and>
      ValidateEvent ev = None \<and> event_SessionID ev = ''s1'' \<and> EventID ev = ''u'' \<and>
      event_Timestamp ev = 1700000000000)"
proof -
  have parse: "ParsePacket stub_gunzip boundary_pose_packet = Inr boundary_pose_packet"
    by code_simp
  have ids: "\<forall>j. uuid_of_nat j \<noteq> []"
    by (simp add: uuid_of_nat_def)
  from Transform_event_valid [OF parse ids, of New_Transformer 0]
  obtain ev s' where tr: "Transform uuid_of_nat boundary_pose_packet (New_Transformer, 0) = (Inr ev, s')"
    and ok: "ValidateEvent ev = None"
    and sid: "event_SessionID ev = SessionID boundary_pose_packet"
    and eid: "EventID ev = uuid_of_nat 0"
    and ts: "event_Timestamp ev = Timestamp boundary_pose_packet"
    by blast
  from sid have "event_SessionID ev = ''s1''"
    by (simp add: boundary_pose_packet_def quaternion_packet_def)
  moreover from eid have "EventID ev = ''u''" by (simp add: uuid_of_nat_def)
  moreover from ts have "event_Timestamp ev = 1700000000000"
    by (simp add: boundary_pose_packet_def quaternion_packet_def)
  ultimately show ?thesis using parse ids tr ok by blast
qed

text \<open>
  C10. \<open>Transform\<close> always returns an event and never an error; for a pose packet with
  no pose and for a mesh packet with no mesh the event has no anchors and no meshes, and
  the Transformer (its session-to-anchor map) is returned as it was.
\<close>

theorem Transform_no_error_nil_payload:
  "(\<exists>ev s'. Transform uuid packet (t, k) = (Inr ev, s')) \<and>
   (payload_absent packet \<longrightarrow>
      (\<exists>ev k'. Transform uuid packet (t, k) = (Inr ev, t, k') \<and>
         Anchors ev = [] \<and> Meshes ev = []))"
proof
  obtain r s' where tr: "Transform uuid packet (t, k) = (r, s')"
    by (cases "Transform uuid packet (t, k)")
  from Transform_event_fields [OF tr] obtain ev where "r = Inr ev" by blast
  with tr show "\<exists>ev s'. Transform uuid packet (t, k) = (Inr ev, s')" by blast
next
  show "payload_absent packet \<longrightarrow>
      (\<exists>ev k'. Transform uuid packet (t, k) = (Inr ev, t, k') \<and> Anchors ev = [] \<and> Meshes ev = [])"
    by (auto simp: payload_absent_def Transform_def transformPose_def transformMesh_def Let_def)
qed

theorem Transform_no_error_nil_payload_witness:
  "payload_absent nil_pose_packet \<and>
   (\<exists>ev k'. Transform uuid_of_nat nil_pose_packet (New_Transformer, 0) = (Inr ev, New_Transformer, k') \<and>
      Anchors ev = [] \<and> Meshes ev = [])"
proof -
  have h: "payload_absent nil_pose_packet"
    by (simp add: payload_absent_def nil_pose_packet_def)
  with Transform_no_error_nil_payload [of uuid_of_nat nil_pose_packet New_Transformer 0]
  show ?thesis by blast
qed

lemma sint_in_range:
  "- (2 ^ 63) \<le> k \<Longrightarrow> k < 2 ^ 63 \<Longrightarrow> signed_take_bit 63 (k :: int) = k"
  by (rule signed_take_bit_int_eq_self) simp_all

lemma NormalizeTimestamp_no_overflow:
  assumes t: "- 9223372036854775 \<le> sint t"
    and n0: "0 \<le> sint now" and n1: "sint now < 2 ^ 62"
  shows "sint (NormalizeTimestamp now t) = NormalizeTimestamp_spec (sint now) (sint t)"
proof -
  have lt: "t <s 1000000000000 \<longleftrightarrow> sint t < 10 ^ 12"
    by (simp add: word_sless_alt)
  have mul: "sint (t * 1000) = sint t * 1000" if "sint t < 10 ^ 12"
  proof -
    have "sint (t * 1000) = signed_take_bit 63 (sint t * 1000)"
      by (simp add: sint_word_ariths)
    also have "\<dots> = sint t * 1000"
      using t that by (intro sint_in_range) simp_all
    finally show ?thesis .
  qed
  have add: "sint (now + 60000) = sint now + 60000"
  proof -
    have "sint (now + 60000) = signed_take_bit 63 (sint now + 60000)"
      by (simp add: sint_word_ariths)
    also have "\<dots> = sint now + 60000"
      using n0 n1 by (intro sint_in_range) simp_all
    finally show ?thesis .
  qed
  have sub: "sint (now - 3600000) = sint now - 3600000"
  proof -
    have "sint (now - 3600000) = signed_take_bit 63 (sint now - 3600000)"
      by (simp add: sint_word_ariths)
    also have "\<dots> = sint now - 3600000"
      using n0 n1 by (intro sint_in_range) simp_all
    finally show ?thesis .
  qed
  show ?thesis
  proof (cases "sint t < 10 ^ 12")
    case True
    with lt mul add sub show ?thesis
      by (simp add: NormalizeTimestamp_def NormalizeTimestamp_spec_def Let_def word_sless_alt)
  next
    case False
    with lt add sub show ?thesis
      by (simp add: NormalizeTimestamp_def NormalizeTimestamp_spec_def Let_def word_sless_alt)
  qed
qed

text \<open>
  C7. The specification's \<open>NormalizeTimestamp\<close> multiplies a timestamp below 10^12 by
  1000 and then replaces a result outside the window around the clock by the clock.
  The code multiplies in \<open>int64\<close>, where the product wraps: a timestamp about 2^61
  seconds in the past wraps to a value inside the window and is returned, where the
  specification returns the clock. (Where nothing wraps the two agree, see
  \<open>NormalizeTimestamp_no_overflow\<close>.)
\<close>

theorem NormalizeTimestamp_wraps:
  "NormalizeTimestamp 1700000000001 (- 2305843007513693952) = 1700000000000 \<and>
   NormalizeTimestamp_spec 1700000000001 (- 2305843007513693952) = 1700000000001"
  by (simp add: NormalizeTimestamp_def NormalizeTimestamp_spec_def word_sless_alt)

section \<open>Properties of the Updater\<close>

subsection \<open>Rounding\<close>

lemma bitlen_pos: "0 < k \<Longrightarrow> bitlen k = Suc (bitlen (k div 2))"
  by (subst bitlen.simps) simp

lemma bitlen_bounds:
  "0 < k \<Longrightarrow> 2 ^ (bitlen k - 1) \<le> k \<and> k < 2 ^ bitlen k"
proof (induction k rule: bitlen.induct)
  case (1 k)
  have bl: "bitlen k = Suc (bitlen (k div 2))"
    using "1.prems" by (subst bitlen.simps) simp
  show ?case
  proof (cases "k div 2 = 0")
    case True
    with "1.prems" have "k = 1" by presburger
    with True bl show ?thesis by (simp add: bitlen.simps [of 0])
  next
    case False
    with "1.prems" have pos: "0 < k div 2" by presburger
    from "1.IH" [OF _ pos] "1.prems"
    have ih: "2 ^ (bitlen (k div 2) - 1) \<le> k div 2" "k div 2 < 2 ^ bitlen (k div 2)"
      by simp_all
    have b1: "bitlen (k div 2) = Suc (bitlen (k div 2) - 1)"
      using bitlen_pos [OF pos] by simp
    have "(2::int) ^ bitlen (k div 2) = 2 * 2 ^ (bitlen (k div 2) - 1)"
      by (subst b1) simp
    also have "\<dots> \<le> 2 * (k div 2)" using ih(1) by simp
    also have "\<dots> \<le> k" by presburger
    finally have lo: "2 ^ bitlen (k div 2) \<le> k" .
    have "k < 2 * (k div 2) + 2" by presburger
    also have "\<dots> \<le> 2 * 2 ^ bitlen (k div 2)" using ih(2) by simp
    finally have hi: "k < 2 ^ Suc (bitlen (k div 2))" by simp
    from lo hi bl show ?thesis by simp
  qed
qed

lemma pow2_powi: "pow2 k = 2 powi k"
  by (simp add: pow2_def power_int_def field_simps)

lemma pow2_pos: "0 < pow2 k"
  by (simp add: pow2_powi)

lemma pow2_diff: "pow2 (a - b) = pow2 a / pow2 b"
  by (simp add: pow2_powi power_int_diff)

lemma pow2_of_nat: "pow2 (int n) = 2 ^ n"
  by (simp add: pow2_def)

lemma ilog2_le:
  assumes "0 < x"
  shows "pow2 (ilog2 x) \<le> x"
proof -
  obtain p q where pq: "quotient_of x = (p, q)" by (cases "quotient_of x")
  then have q: "0 < q" and x: "x = of_int p / of_int q"
    by (auto dest: quotient_of_denom_pos quotient_of_div)
  with assms have p: "0 < p"
    by (simp add: zero_less_divide_iff)
  let ?e = "int (bitlen p) - int (bitlen q)"
  show ?thesis
  proof (cases "x < pow2 ?e")
    case False
    with pq show ?thesis by (simp add: ilog2_def Let_def)
  next
    case True
    with pq have il: "ilog2 x = int (bitlen p) - int (bitlen q) - 1"
      by (simp add: ilog2_def Let_def)
    have bp: "bitlen p = Suc (bitlen p - 1)"
      using bitlen_pos [OF p] by simp
    have "ilog2 x = int (bitlen p - 1) - int (bitlen q)"
      using il bp by linarith
    then have "pow2 (ilog2 x) = 2 ^ (bitlen p - 1) / 2 ^ bitlen q"
      by (simp add: pow2_diff pow2_of_nat)
    also have "\<dots> \<le> of_int p / 2 ^ bitlen q"
    proof -
      have "(2::int) ^ (bitlen p - 1) \<le> p" using bitlen_bounds [OF p] by simp
      then have "(of_int (2 ^ (bitlen p - 1)) :: rat) \<le> of_int p" by (simp only: of_int_le_iff)
      then show ?thesis by (simp add: divide_right_mono)
    qed
    also have "\<dots> \<le> of_int p / of_int q"
    proof -
      have "q < 2 ^ bitlen q" using bitlen_bounds [OF q] by simp
      then have "q \<le> 2 ^ bitlen q" by simp
      then have "(of_int q :: rat) \<le> of_int (2 ^ bitlen q)" by (simp only: of_int_le_iff)
      then have "(of_int q :: rat) \<le> 2 ^ bitlen q" by simp
      moreover have "(0::rat) < of_int q" using q by simp
      moreover have "(0::rat) \<le> of_int p" using p by simp
      ultimately show ?thesis by (simp add: frac_le)
    qed
    finally show ?thesis using x by simp
  qed
qed


lemma ilog2_less:
  assumes "0 < x"
  shows "x < pow2 (ilog2 x + 1)"
proof -
  obtain p q where pq: "quotient_of x = (p, q)" by (cases "quotient_of x")
  then have q: "0 < q" and x: "x = of_int p / of_int q"
    by (auto dest: quotient_of_denom_pos quotient_of_div)
  with assms have p: "0 < p"
    by (simp add: zero_less_divide_iff)
  let ?e = "int (bitlen p) - int (bitlen q)"
  show ?thesis
  proof (cases "x < pow2 ?e")
    case True
    with pq show ?thesis by (simp add: ilog2_def Let_def)
  next
    case False
    with pq have il: "ilog2 x = int (bitlen p) - int (bitlen q)"
      by (simp add: ilog2_def Let_def)
    have bq: "bitlen q = Suc (bitlen q - 1)"
      using bitlen_pos [OF q] by simp
    have "ilog2 x + 1 = int (bitlen p) - int (bitlen q - 1)"
      using il bq by linarith
    then have e: "pow2 (ilog2 x + 1) = 2 ^ bitlen p / 2 ^ (bitlen q - 1)"
      by (simp add: pow2_diff pow2_of_nat)
    have "p < 2 ^ bitlen p" using bitlen_bounds [OF p] by simp
    then have "(of_int p :: rat) < of_int (2 ^ bitlen p)" by (simp only: of_int_less_iff)
    then have 1: "(of_int p :: rat) < 2 ^ bitlen p" by simp
    have "2 ^ (bitlen q - 1) \<le> q" using bitlen_bounds [OF q] by simp
    then have "(of_int (2 ^ (bitlen q - 1)) :: rat) \<le> of_int q" by (simp only: of_int_le_iff)
    then have 2: "(2 ^ (bitlen q - 1) :: rat) \<le> of_int q" by simp
    have "of_int p / of_int q \<le> (of_int p :: rat) / 2 ^ (bitlen q - 1)"
      using 2 p q by (intro divide_left_mono) simp_all
    also have "\<dots> < 2 ^ bitlen p / 2 ^ (bitlen q - 1)"
      using 1 by (simp add: divide_strict_right_mono)
    finally show ?thesis using x e by simp
  qed
qed

lemma f64_round_nonneg:
  assumes "0 \<le> x"
  shows "0 \<le> f64_round x"
proof (cases "x = 0")
  case True
  then show ?thesis by (simp add: f64_round_def)
next
  case False
  with assms have x: "0 < x" by simp
  let ?u = "pow2 (ilog2 x - 52)"
  have u: "0 < ?u" by (rule pow2_pos)
  then have "0 \<le> x / ?u" using x by simp
  then have "0 \<le> \<lfloor>x / ?u\<rfloor>" by simp
  then show ?thesis
    using x u by (simp add: f64_round_def Let_def)
qed

lemma f64_round_upper:
  assumes x: "0 < x"
  shows "f64_round x \<le> x + x / 2 ^ 53"
proof -
  let ?u = "pow2 (ilog2 x - 52)"
  let ?t = "x / ?u"
  let ?n = "\<lfloor>?t\<rfloor>"
  let ?f = "?t - of_int ?n"
  let ?m = "if ?f < 1 / 2 \<or> (?f = 1 / 2 \<and> even ?n) then ?n else ?n + 1"
  have u: "0 < ?u" by (rule pow2_pos)
  have ux: "?u * 2 ^ 52 \<le> x"
  proof -
    have "?u = pow2 (ilog2 x) / 2 ^ 52"
      using pow2_diff [of "ilog2 x" 52] by (simp add: pow2_def)
    then have "?u * 2 ^ 52 = pow2 (ilog2 x)" by simp
    with ilog2_le [OF x] show ?thesis by simp
  qed
  have r: "f64_round x = of_int ?m * ?u"
    using x by (simp add: f64_round_def Let_def)
  have fl: "(of_int ?n :: rat) \<le> ?t" by (rule of_int_floor_le)
  have m: "(of_int ?m :: rat) \<le> ?t + 1 / 2"
  proof (cases "?f < 1 / 2 \<or> (?f = 1 / 2 \<and> even ?n)")
    case True
    then have "?m = ?n" by (rule if_P)
    then have "(of_int ?m :: rat) = of_int ?n" by (rule arg_cong)
    with fl show ?thesis by linarith
  next
    case False
    then have "?m = ?n + 1" by (rule if_not_P)
    then have "(of_int ?m :: rat) = of_int (?n + 1)" by (rule arg_cong)
    then have e: "(of_int ?m :: rat) = of_int ?n + 1" by (simp only: of_int_add of_int_1)
    from False have "1 / 2 \<le> ?f" by (simp only: de_Morgan_disj not_less)
    with e show ?thesis by linarith
  qed
  have "of_int ?m * ?u \<le> (?t + 1 / 2) * ?u"
    using m u by (simp only: mult_right_mono less_imp_le)
  also have "\<dots> = x + ?u / 2"
    using u by (simp add: field_simps)
  also have "\<dots> \<le> x + x / 2 ^ 53"
  proof -
    have "?u \<le> x / 2 ^ 52" using ux by (simp add: field_simps)
    then show ?thesis by simp
  qed
  finally show ?thesis using r by simp
qed


lemma f64_round_upper_coarse:
  assumes "0 \<le> x"
  shows "f64_round x \<le> x * (11 / 10)"
proof (cases "x = 0")
  case True
  then show ?thesis by (simp add: f64_round_def)
next
  case False
  with assms have x: "0 < x" by simp
  have "x / 2 ^ 53 \<le> x / 10"
    using x by (intro divide_left_mono) simp_all
  with f64_round_upper [OF x] show ?thesis by simp
qed

lemma f64_seven_tenths: "f64_round (7 / 10) = 6305039478318694 / 2 ^ 53"
  by code_simp

lemma size_threshold_le:
  "f64_to_int (f64_mul (f64_of_nat n) (f64_round (7 / 10))) \<le> int n"
proof -
  let ?a = "f64_of_nat n"
  let ?c = "f64_round (7 / 10)"
  let ?y = "?a * ?c"
  have c: "0 \<le> ?c" "?c \<le> 7 / 10"
    by (simp_all add: f64_seven_tenths)
  have a0: "0 \<le> ?a"
    unfolding f64_of_nat_def by (rule f64_round_nonneg) simp
  have a1: "?a \<le> of_nat n * (11 / 10)"
    unfolding f64_of_nat_def by (rule f64_round_upper_coarse) simp
  have y0: "0 \<le> ?y" using a0 c(1) by (rule mult_nonneg_nonneg)
  have "?y \<le> ?a * (7 / 10)" using c(2) a0 by (rule mult_left_mono)
  with a1 have y1: "?y \<le> of_nat n * (77 / 100)" by simp
  have r0: "0 \<le> f64_round ?y" using y0 by (rule f64_round_nonneg)
  have "f64_round ?y \<le> ?y * (11 / 10)" using y0 by (rule f64_round_upper_coarse)
  with y1 have "f64_round ?y \<le> of_nat n * (847 / 1000)" by simp
  moreover have "(of_nat n :: rat) * (847 / 1000) \<le> of_nat n" by simp
  ultimately have "f64_round ?y \<le> of_nat n" by (rule order_trans)
  then have "\<lfloor>f64_round ?y\<rfloor> \<le> \<lfloor>(of_nat n :: rat)\<rfloor>" by (rule floor_mono)
  then have "\<lfloor>f64_round ?y\<rfloor> \<le> int n" by simp
  with r0 show ?thesis by (simp add: f64_to_int_def f64_mul_def)
qed

subsection \<open>Mesh diffing\<close>

lemma length_createVertexDelta: "length (createVertexDelta old new) = length new"
  by (simp add: createVertexDelta_def)

lemma delta_never_smaller:
  "\<not> int (length (createVertexDelta old new))
       < f64_to_int (f64_mul (f64_of_nat (length new)) (f64_round (7 / 10)))"
  using size_threshold_le [of "length new"] by (simp add: length_createVertexDelta)

lemma applyMeshDiffing_body_eq:
  "applyMeshDiffing_body mesh lm =
     (mesh, if IsDelta mesh then lm else lm(mesh_AnchorID mesh \<mapsto> VerticesDelta mesh))"
  using delta_never_smaller [of _ "VerticesDelta mesh"]
  by (simp add: applyMeshDiffing_body_def Let_def split: option.splits)

text \<open>
  C1. The specification has a mesh that is more than 0.8 similar to the remembered one
  go out as an XOR delta with \<open>is_delta = true\<close>. In the code the delta is as long as
  the incoming buffer and is emitted only when it is shorter than 70% of it, which
  never holds (\<open>applyMeshDiffing_body_eq\<close>). On the specification's own scenario, 12
  vertex bytes and then the same with one byte changed (similarity 11/12), the second
  mesh goes out unchanged with \<open>is_delta = false\<close>, not as the delta
  \<open>[0, ..., 0, 104]\<close>.
\<close>

theorem applyMeshDiffing_similar_mesh_not_delta:
  "length vertices_first = length vertices_second \<and>
   calculateVertexSimilarity vertices_first vertices_second > f64_round (8 / 10) \<and>
   lastMeshes (snd (applyMeshDiffing (mesh_event ''e1'' vertices_first) (New_Updater 5))) ''a1''
     = Some vertices_first \<and>
   map (\<lambda>m. (IsDelta m, VerticesDelta m))
     (Meshes (fst (applyMeshDiffing (mesh_event ''e2'' vertices_second)
        (snd (applyMeshDiffing (mesh_event ''e1'' vertices_first) (New_Updater 5))))))
     = [(False, vertices_second)] \<and>
   createVertexDelta vertices_first vertices_second = [0, 0, 0, 0, 0, 0, 0, 0, 0, 0, 0, 104]"
  by code_simp

lemma body_stores:
  "snd (applyMeshDiffing_body mesh lm) =
     (if IsDelta mesh then lm else lm(mesh_AnchorID mesh \<mapsto> VerticesDelta mesh))"
  by (simp add: applyMeshDiffing_body_def Let_def split: option.splits)

lemma loop_keeps:
  "\<forall>m \<in> set ms. IsDelta m \<or> mesh_AnchorID m \<noteq> A \<Longrightarrow>
     snd (applyMeshDiffing_loop ms acc lm) A = lm A"
proof (induction ms arbitrary: acc lm)
  case Nil
  show ?case by simp
next
  case (Cons m ms)
  obtain out lm' where b: "applyMeshDiffing_body m lm = (out, lm')"
    by (cases "applyMeshDiffing_body m lm")
  with body_stores [of m lm] have "lm' A = lm A"
    using Cons.prems by auto
  moreover have "snd (applyMeshDiffing_loop ms (acc @ [out]) lm') A = lm' A"
    using Cons.prems by (intro Cons.IH) simp
  ultimately show ?case using b by simp
qed

lemma loop_append:
  "applyMeshDiffing_loop (xs @ ys) acc lm =
     (case applyMeshDiffing_loop xs acc lm of (acc', lm') \<Rightarrow> applyMeshDiffing_loop ys acc' lm')"
  by (induction xs arbitrary: acc lm) (auto split: prod.splits)

text \<open>
  C6. After \<open>applyMeshDiffing\<close> has processed a mesh with \<open>is_delta = false\<close> for an
  anchor id, the remembered-vertex map holds the incoming vertex buffer of that mesh for
  that anchor id, whichever branch was taken (no later mesh of the same event being a
  full mesh for the same anchor id).
\<close>

theorem applyMeshDiffing_remembers_incoming:
  assumes "Meshes event = before @ mesh # after"
    and "\<not> IsDelta mesh"
    and "\<forall>m \<in> set after. IsDelta m \<or> mesh_AnchorID m \<noteq> mesh_AnchorID mesh"
  shows "lastMeshes (snd (applyMeshDiffing event u)) (mesh_AnchorID mesh) = Some (VerticesDelta mesh)"
proof -
  obtain acc1 lm1 where 1: "applyMeshDiffing_loop before [] (lastMeshes u) = (acc1, lm1)"
    by (cases "applyMeshDiffing_loop before [] (lastMeshes u)")
  obtain out lm2 where 2: "applyMeshDiffing_body mesh lm1 = (out, lm2)"
    by (cases "applyMeshDiffing_body mesh lm1")
  have lm2: "lm2 (mesh_AnchorID mesh) = Some (VerticesDelta mesh)"
    using body_stores [of mesh lm1] 2 assms(2) by simp
  have "snd (applyMeshDiffing_loop (Meshes event) [] (lastMeshes u)) =
          snd (applyMeshDiffing_loop after (acc1 @ [out]) lm2)"
    using assms(1) 1 2 by (simp add: loop_append)
  then have "snd (applyMeshDiffing_loop (Meshes event) [] (lastMeshes u)) (mesh_AnchorID mesh) =
          Some (VerticesDelta mesh)"
    using loop_keeps [OF assms(3)] lm2 by simp
  then show ?thesis
    using assms(1) by (auto simp: applyMeshDiffing_def split: prod.splits)
qed

theorem applyMeshDiffing_remembers_incoming_witness:
  "\<not> IsDelta (hd (Meshes (mesh_event ''e2'' vertices_second))) \<and>
   lastMeshes (New_Updater 5\<lparr>lastMeshes := [''a1'' \<mapsto> vertices_first]\<rparr>) ''a1''
     = Some vertices_first \<and>
   lastMeshes (snd (applyMeshDiffing (mesh_event ''e2'' vertices_second)
       (New_Updater 5\<lparr>lastMeshes := [''a1'' \<mapsto> vertices_first]\<rparr>))) ''a1''
     = Some vertices_second"
proof -
  let ?m = "\<lparr>mesh_AnchorID = ''a1'', VerticesDelta = vertices_second, FacesDelta = [0, 1, 2],
             IsDelta = False\<rparr>"
  have 1: "Meshes (mesh_event ''e2'' vertices_second) = [] @ ?m # []"
    by (simp add: mesh_event_def)
  have 2: "\<not> IsDelta ?m" by simp
  have 3: "\<forall>m \<in> set []. IsDelta m \<or> mesh_AnchorID m \<noteq> mesh_AnchorID ?m" by simp
  from applyMeshDiffing_remembers_incoming [OF 1 2 3] show ?thesis
    by (simp add: mesh_event_def New_Updater_def)
qed

lemma xor_zip_cancel:
  "length old = length new \<Longrightarrow>
     map (\<lambda>(a, b). a XOR b) (zip old (map (\<lambda>(a, b). a XOR b) (zip old new))) = (new :: bytes)"
proof (induction old new rule: list_induct2)
  case Nil
  show ?case by simp
next
  case (Cons x xs y ys)
  have "x XOR (x XOR y) = y"
    by (simp add: xor.assoc [symmetric])
  with Cons show ?case by simp
qed

text \<open>
  C8. For buffers of equal length, XOR-ing the old buffer with the delta that
  \<open>createVertexDelta\<close> made from the old and the new one gives the new buffer back.
\<close>

theorem createVertexDelta_roundtrip:
  "length old = length new \<Longrightarrow>
     map (\<lambda>(a, b). a XOR b) (zip old (createVertexDelta old new)) = new"
  by (simp add: createVertexDelta_def xor_zip_cancel)

theorem createVertexDelta_roundtrip_witness:
  "length [1, 2, 3 :: byte] = length [3, 2, 255 :: byte] \<and>
   createVertexDelta [1, 2, 3] [3, 2, 255] = [2, 0, 252] \<and>
   map (\<lambda>(a, b). a XOR b) (zip [1, 2, 3] (createVertexDelta [1, 2, 3] [3, 2, 255])) = [3, 2, 255 :: byte]"
  using createVertexDelta_roundtrip [of "[1, 2, 3]" "[3, 2, 255]"]
  by (simp add: createVertexDelta_def)

subsection \<open>Delivery\<close>

lemma sendToSTAG_ok_iff:
  "sendToSTAG gzip_Write post u events = None \<longleftrightarrow>
     events = [] \<or>
     post (map (\<lambda>ev. ev\<lparr>Meshes := map (compressMesh gzip_Write u) (Meshes ev)\<rparr>) events) = Inr 200"
  by (auto simp: sendToSTAG_def Let_def split: sum.splits)

lemma flushBatch_state:
  "snd (flushBatch gzip_Write post u) = u\<lparr>eventQueue := []\<rparr>"
  by (simp add: flushBatch_def Let_def split: option.splits)

text \<open>
  C2. The specification counts every 2xx response as a delivered batch. \<open>sendToSTAG\<close>
  accepts status 200 only: on 201 Created it returns an error and \<open>flushBatch\<close> logs
  the batch as failed, where on 200 the same batch is delivered. (What the
  specification says of a failure does hold: the queue was emptied before the send,
  nothing is sent again and the remembered-vertex map is untouched, see
  \<open>flushBatch_state\<close>.)
\<close>

theorem flushBatch_status_201_is_failure:
  "flushBatch (\<lambda>b. Inr b) (\<lambda>events. Inr 201)
     (New_Updater 5\<lparr>eventQueue := [mesh_event ''e1'' vertices_first]\<rparr>)
   = (FailureLogged (BadStatus 201), New_Updater 5) \<and>
   flushBatch (\<lambda>b. Inr b) (\<lambda>events. Inr 200)
     (New_Updater 5\<lparr>eventQueue := [mesh_event ''e1'' vertices_first]\<rparr>)
   = (Delivered, New_Updater 5)"
  by (simp add: flushBatch_def sendToSTAG_def New_Updater_def)

end
